theory Spec2Isabelle
  imports
    Complex_Main
    "HOL-Library.Word"
    "HOL-Library.Signed_Division"
    "HOL-Library.Multiset"
    "HOL-Library.AList"
begin

section \<open>Audio fingerprinting: the package \<open>fingerprint\<close>\<close>

text \<open>
  A shallow embedding of \<^verbatim>\<open>fingerprint/fingerprint.go\<close>.

  Numeric conventions.
  \<^item> A \<^verbatim>\<open>float64\<close> is a \<^typ>\<open>real\<close>: rounding error, infinities and NaN are not
    modelled. Where the source would compute with NaN or an infinity (a logarithm of a
    non-positive number, a division by zero) the model says so explicitly or the
    theorems exclude the input.
  \<^item> A Go \<^verbatim>\<open>int\<close> is an \<^typ>\<open>int\<close>: the 64-bit range is not modelled.
  \<^item> The conversion \<^verbatim>\<open>int(x)\<close> of a float truncates toward zero (\<open>go_int\<close>); the language
    leaves the conversion of a value outside the range of \<^verbatim>\<open>int\<close> to the implementation,
    and the model truncates there too.
  \<^item> Go's \<^verbatim>\<open>%\<close> on integers takes the sign of the dividend: \<open>smod\<close>.
  \<^item> A \<^verbatim>\<open>byte\<close> is an 8-bit word; \<^verbatim>\<open>byte(n)\<close> is \<open>word_of_int n\<close>.
  \<^item> A slice that may be \<^verbatim>\<open>nil\<close> is a \<open>list option\<close>, \<open>None\<close> being \<^verbatim>\<open>nil\<close>.
\<close>

subsection \<open>Constants and data\<close>

type_synonym byte = "8 word"

definition go_int :: "real \<Rightarrow> int" where
  "go_int x = (if 0 \<le> x then \<lfloor>x\<rfloor> else \<lceil>x\<rceil>)"

definition REQUIRED_CANDIDATES :: nat where
  "REQUIRED_CANDIDATES = 4"

definition LOWER_FREQ_CUTOFF :: real where
  "LOWER_FREQ_CUTOFF = 0.0"

definition LOWER_POWER_CUTOFF :: real where
  "LOWER_POWER_CUTOFF = 100"

definition SA_PWELCH :: int where
  "SA_PWELCH = 1"

definition SA_BESPOKE :: int where
  "SA_BESPOKE = 2"

definition MAX_NOTE :: int where
  "MAX_NOTE = 12"

definition LOGNA :: real where
  "LOGNA = 0.05776226504666185940"

record candidate =
  Freq :: real
  Pxx :: real

text \<open>
  The struct \<^verbatim>\<open>Chroma\<close>; its field \<^verbatim>\<open>Freq\<close> is \<open>ChromaFreq\<close> here, the name \<open>Freq\<close>
  being taken by \<^verbatim>\<open>candidate\<close>.
\<close>

record Chroma =
  Note :: int
  ChromaFreq :: real
  Strength :: real

record Fingerprint =
  Key :: "byte list"
  Timestamp :: real
  Candidates :: "candidate list option"
  Transcription :: "Chroma list option"

text \<open>
  \<^verbatim>\<open>pcm.Buffer\<close> is declared in another package; the code here reads its field
  \<^verbatim>\<open>Timestamp\<close> only (\<open>BufferTimestamp\<close>), the rest is the parameter \<open>'d\<close>.
\<close>

record 'd pcm_Buffer =
  BufferData :: 'd
  BufferTimestamp :: real

text \<open>
  The ways a call can end without a value: the two \<^verbatim>\<open>log.Panicf\<close> of \<^verbatim>\<open>New\<close>, the
  run-time panics of an index out of range and of a nil pointer, and the conversion to
  \<^verbatim>\<open>int\<close> of a NaN or an infinity, whose result the language leaves to the
  implementation.
\<close>

datatype error =
    UnrecognisedAnalyser int
  | UnknownMethod string
  | IndexOutOfRange
  | NilDereference
  | UnspecifiedConversion

subsection \<open>Sorting and map iteration\<close>

text \<open>
  \<^verbatim>\<open>sort.Sort\<close> is library code and is not stable: it is a parameter \<open>srt\<close>, taking the
  \<^verbatim>\<open>Less\<close> of the interface, of which only the contract is used: the result is a
  permutation of the slice in which no element is \<^verbatim>\<open>Less\<close> than an earlier one.
  \<open>insertionSort\<close> is one sorter that meets the contract.
\<close>

type_synonym sorter = "(candidate \<Rightarrow> candidate \<Rightarrow> bool) \<Rightarrow> candidate list \<Rightarrow> candidate list"

definition ByPxx_Less :: "candidate \<Rightarrow> candidate \<Rightarrow> bool" where
  "ByPxx_Less a b \<longleftrightarrow> Pxx a < Pxx b"

definition ByFreq_Less :: "candidate \<Rightarrow> candidate \<Rightarrow> bool" where
  "ByFreq_Less a b \<longleftrightarrow> Freq a < Freq b"

definition Reverse :: "(candidate \<Rightarrow> candidate \<Rightarrow> bool) \<Rightarrow> candidate \<Rightarrow> candidate \<Rightarrow> bool" where
  "Reverse lt a b \<longleftrightarrow> lt b a"

definition sort_contract :: "sorter \<Rightarrow> bool" where
  "sort_contract srt \<longleftrightarrow>
     (\<forall>(key :: candidate \<Rightarrow> real) xs.
        mset (srt (\<lambda>a b. key a < key b) xs) = mset xs \<and>
        sorted_wrt (\<lambda>a b. \<not> key b < key a) (srt (\<lambda>a b. key a < key b) xs))"

fun insert_by :: "('a \<Rightarrow> 'a \<Rightarrow> bool) \<Rightarrow> 'a \<Rightarrow> 'a list \<Rightarrow> 'a list" where
  "insert_by lt x [] = [x]"
| "insert_by lt x (y # ys) = (if lt x y then x # y # ys else y # insert_by lt x ys)"

definition insertionSort :: "('a \<Rightarrow> 'a \<Rightarrow> bool) \<Rightarrow> 'a list \<Rightarrow> 'a list" where
  "insertionSort lt xs = foldr (insert_by lt) xs []"

text \<open>
  A Go map from \<^verbatim>\<open>int\<close> to \<^verbatim>\<open>float64\<close> is an association list with distinct keys; a
  missing key reads as \<open>0\<close>. The order in which \<^verbatim>\<open>range\<close> visits the entries is not
  specified and may change from one run to the next: it is a parameter \<open>ord\<close>, of which
  only \<open>range_contract\<close> is known.
\<close>

type_synonym float_map = "(int \<times> real) list"

type_synonym range_order = "float_map \<Rightarrow> float_map"

definition map_get :: "float_map \<Rightarrow> int \<Rightarrow> real" where
  "map_get m k = (case map_of m k of None \<Rightarrow> 0 | Some v \<Rightarrow> v)"

definition range_contract :: "range_order \<Rightarrow> bool" where
  "range_contract ord \<longleftrightarrow> (\<forall>m. mset (ord m) = mset m)"

subsection \<open>Pitch classes and quantisation\<close>

definition noteSteps :: "real \<Rightarrow> real" where
  "noteSteps freq = ln (freq / 440.0) / LOGNA"

definition freqNote :: "real \<Rightarrow> int" where
  "freqNote freq =
     (let n = go_int (noteSteps freq + 0.5) smod MAX_NOTE
      in if n < 0 then n + MAX_NOTE else n)"

definition fuzzyFreq :: "real \<Rightarrow> real" where
  "fuzzyFreq f = of_int (go_int (f / 10 + 0.5) * 10)"

subsection \<open>Transcription\<close>

text \<open>
  The loop of \<^verbatim>\<open>transcribe\<close> over \<^verbatim>\<open>freqs\<close>, the two slices walked in step: \<^verbatim>\<open>Pxx[i]\<close>
  panics when \<^verbatim>\<open>Pxx\<close> is the shorter one. The state is the table \<open>t\<close> and \<^verbatim>\<open>chromaCount\<close>.
\<close>

definition emptyChroma :: Chroma where
  "emptyChroma = \<lparr>Note = 0, ChromaFreq = 0, Strength = 0\<rparr>"

fun transcribeLoop :: "real list \<Rightarrow> real list \<Rightarrow> Chroma list \<times> nat \<Rightarrow> error + Chroma list \<times> nat" where
  "transcribeLoop [] pxx st = Inr st"
| "transcribeLoop (v # freqs) [] st = Inl IndexOutOfRange"
| "transcribeLoop (v # freqs) (p # pxx) (t, chromaCount) =
     (let n = nat (freqNote v) in
      if p > Strength (t ! n) then
        if p > LOWER_POWER_CUTOFF \<and> v > LOWER_FREQ_CUTOFF then
          transcribeLoop freqs pxx
            (t[n := \<lparr>Note = int n, ChromaFreq = fuzzyFreq v, Strength = p\<rparr>], chromaCount + 1)
        else transcribeLoop freqs pxx (t, chromaCount)
      else transcribeLoop freqs pxx (t, chromaCount))"

definition transcribe :: "real list \<Rightarrow> real list \<Rightarrow> error + Chroma list option" where
  "transcribe freqs pxx =
     (case transcribeLoop freqs pxx (replicate (nat MAX_NOTE) emptyChroma, 0) of
        Inl e \<Rightarrow> Inl e
      | Inr (t, chromaCount) \<Rightarrow> Inr (if chromaCount = 0 then None else Some t))"

subsection \<open>Keys\<close>

text \<open>
  \<^verbatim>\<open>fmt.Sprintf("%e", _)\<close> and SHA-1 are library code: the parameters \<open>fmt\<close> and \<open>sha\<close>.
  \<open>hashKey\<close> is the digest of the concatenated strings, as the three hashing loops
  of the source compute it.
\<close>

definition hashKey :: "(real \<Rightarrow> string) \<Rightarrow> (string \<Rightarrow> byte list) \<Rightarrow> real list \<Rightarrow> byte list" where
  "hashKey fmt sha fs = sha (concat (map fmt fs))"

definition maxStrength :: "Chroma list \<Rightarrow> real" where
  "maxStrength t = foldl (\<lambda>maxPxx v. if Strength v > maxPxx then Strength v else maxPxx) 0.0 t"

text \<open>
  \<^verbatim>\<open>audioKey\<close>. With \<open>maxPxx = 0\<close> every quotient is a NaN or an infinity, and its
  conversion to \<^verbatim>\<open>int\<close> is not specified: that outcome is \<open>UnspecifiedConversion\<close>.
\<close>

definition audioKey ::
  "(real \<Rightarrow> string) \<Rightarrow> (string \<Rightarrow> byte list) \<Rightarrow> Chroma list option \<Rightarrow> error + byte list option" where
  "audioKey fmt sha t =
     (let optPowerKey = True in
      case t of
        None \<Rightarrow> Inr None
      | Some bins \<Rightarrow>
          if optPowerKey then
            (let maxPxx = maxStrength bins in
             if bins \<noteq> [] \<and> maxPxx = 0 then Inl UnspecifiedConversion
             else Inr (Some (map (\<lambda>v. word_of_int (go_int (Strength v / maxPxx * 8.0 + 0.5))) bins)))
          else Inr (Some (hashKey fmt sha (map ChromaFreq bins))))"

subsection \<open>Candidates\<close>

text \<open>
  The loops of the two selectors run over \<^verbatim>\<open>Pxx\<close>; \<^verbatim>\<open>freqs[i]\<close> is read, and panics when
  \<^verbatim>\<open>freqs\<close> is the shorter slice, only after \<^verbatim>\<open>v > LOWER_POWER_CUTOFF\<close> has held.
\<close>

fun topLoop :: "real list \<Rightarrow> real list \<Rightarrow> candidate list \<Rightarrow> error + candidate list" where
  "topLoop freqs [] candidates = Inr candidates"
| "topLoop freqs (v # pxx) candidates =
     (if v > LOWER_POWER_CUTOFF then
        (case freqs of
           [] \<Rightarrow> Inl IndexOutOfRange
         | f # freqs' \<Rightarrow>
             if f > LOWER_FREQ_CUTOFF
             then topLoop freqs' pxx (candidates @ [\<lparr>Freq = fuzzyFreq f, Pxx = v\<rparr>])
             else topLoop freqs' pxx candidates)
      else topLoop (tl freqs) pxx candidates)"

definition getTopCandidates :: "sorter \<Rightarrow> real list \<Rightarrow> real list \<Rightarrow> error + candidate list option" where
  "getTopCandidates srt freqs pxx =
     (case topLoop freqs pxx [] of
        Inl e \<Rightarrow> Inl e
      | Inr candidates \<Rightarrow>
          (let candidates = srt (Reverse ByPxx_Less) candidates in
           if length candidates < REQUIRED_CANDIDATES then Inr None
           else Inr (Some (srt (Reverse ByFreq_Less) (take REQUIRED_CANDIDATES candidates)))))"

definition freqBand :: "real \<Rightarrow> int" where
  "freqBand f =
     (let uLimit = 11025.0 / 2.0;
          a = f - LOWER_FREQ_CUTOFF;
          b = uLimit - LOWER_FREQ_CUTOFF
      in go_int (a / b * 4 + 0.5))"

text \<open>The state of the banding loop is the pair of maps (\<^verbatim>\<open>highScores\<close>, \<^verbatim>\<open>highPoints\<close>).\<close>

fun bandLoop :: "real list \<Rightarrow> real list \<Rightarrow> float_map \<times> float_map \<Rightarrow> error + float_map \<times> float_map" where
  "bandLoop freqs [] st = Inr st"
| "bandLoop freqs (v # pxx) (highScores, highPoints) =
     (if v > LOWER_POWER_CUTOFF then
        (case freqs of
           [] \<Rightarrow> Inl IndexOutOfRange
         | f # freqs' \<Rightarrow>
             if f > LOWER_FREQ_CUTOFF then
               (let fb = freqBand f in
                if v > map_get highScores fb
                then bandLoop freqs' pxx (AList.update fb v highScores, AList.update fb f highPoints)
                else bandLoop freqs' pxx (highScores, highPoints))
             else bandLoop freqs' pxx (highScores, highPoints))
      else bandLoop (tl freqs) pxx (highScores, highPoints))"

definition getBandedCandidates ::
  "sorter \<Rightarrow> range_order \<Rightarrow> real list \<Rightarrow> real list \<Rightarrow> error + candidate list" where
  "getBandedCandidates srt ord freqs pxx =
     (case bandLoop freqs pxx ([], []) of
        Inl e \<Rightarrow> Inl e
      | Inr (highScores, highPoints) \<Rightarrow>
          Inr (srt (Reverse ByFreq_Less)
                 (map (\<lambda>(k, v). \<lparr>Freq = fuzzyFreq v, Pxx = map_get highScores k\<rparr>) (ord highPoints))))"

text \<open>
  For the statements about the selectors: the samples of a frame that pass the two
  admissibility floors, in the order of the frame, and the candidate made of a sample.
\<close>

definition candidate_of :: "real \<times> real \<Rightarrow> candidate" where
  "candidate_of s = \<lparr>Freq = fuzzyFreq (fst s), Pxx = snd s\<rparr>"

definition admissible :: "real list \<Rightarrow> real list \<Rightarrow> (real \<times> real) list" where
  "admissible freqs pxx =
     filter (\<lambda>s. snd s > LOWER_POWER_CUTOFF \<and> fst s > LOWER_FREQ_CUTOFF) (zip freqs pxx)"

text \<open>
  The invariant of the banding loop: the two maps have the same keys, each once, and the
  frequency stored under a key is of that band.
\<close>

definition band_inv :: "float_map \<times> float_map \<Rightarrow> bool" where
  "band_inv st \<longleftrightarrow>
     distinct (map fst (snd st)) \<and> map fst (fst st) = map fst (snd st)
     \<and> (\<forall>e\<in>set (snd st). freqBand (snd e) = fst e)"

subsection \<open>The assembler\<close>

text \<open>
  \<^verbatim>\<open>New\<close> is in two parts. \<open>New_method\<close> is its second \<^verbatim>\<open>switch\<close>, as a function of
  \<^verbatim>\<open>optMethod\<close> and of the spectrum; \<open>New\<close> is the first \<^verbatim>\<open>switch\<close>, on the analyser,
  followed by \<open>New_method\<close> at \<^verbatim>\<open>"transcribe"\<close>, the value the source binds \<^verbatim>\<open>optMethod\<close>
  to. The analysers of the package \<^verbatim>\<open>analysis\<close> are the parameters \<open>pwelch\<close> and
  \<open>overlap\<close>; each returns \<^verbatim>\<open>(Pxx, freqs)\<close>. \<^verbatim>\<open>sampleBlock\<close> is a pointer: \<open>None\<close> is \<^verbatim>\<open>nil\<close>.
  The cases \<^verbatim>\<open>"topfreqs"\<close> and \<^verbatim>\<open>"freqbands"\<close> are the same statements from the test of the
  number of candidates on: \<open>hashed\<close>.
\<close>

definition slice_len :: "'a list option \<Rightarrow> nat" where
  "slice_len s = (case s of None \<Rightarrow> 0 | Some xs \<Rightarrow> length xs)"

definition hashed ::
  "(real \<Rightarrow> string) \<Rightarrow> (string \<Rightarrow> byte list) \<Rightarrow> 'd pcm_Buffer option \<Rightarrow> candidate list option
     \<Rightarrow> error + Fingerprint option" where
  "hashed fmt sha sampleBlock candidates =
     (if slice_len candidates < REQUIRED_CANDIDATES then Inr None
      else
        (let key = hashKey fmt sha (map Freq (case candidates of None \<Rightarrow> [] | Some cs \<Rightarrow> cs)) in
         case sampleBlock of
           None \<Rightarrow> Inl NilDereference
         | Some b \<Rightarrow>
             Inr (Some \<lparr>Key = key, Timestamp = BufferTimestamp b,
                        Candidates = candidates, Transcription = None\<rparr>)))"

definition New_method ::
  "sorter \<Rightarrow> range_order \<Rightarrow> (real \<Rightarrow> string) \<Rightarrow> (string \<Rightarrow> byte list) \<Rightarrow> string
     \<Rightarrow> 'd pcm_Buffer option \<Rightarrow> real list \<Rightarrow> real list \<Rightarrow> error + Fingerprint option" where
  "New_method srt ord fmt sha optMethod sampleBlock freqs pxx =
     (if optMethod = ''transcribe'' then
        (case transcribe freqs pxx of
           Inl e \<Rightarrow> Inl e
         | Inr transcription \<Rightarrow>
             (case audioKey fmt sha transcription of
                Inl e \<Rightarrow> Inl e
              | Inr None \<Rightarrow> Inr None
              | Inr (Some key) \<Rightarrow>
                  (case sampleBlock of
                     None \<Rightarrow> Inl NilDereference
                   | Some b \<Rightarrow>
                       Inr (Some \<lparr>Key = key, Timestamp = BufferTimestamp b,
                                  Candidates = None, Transcription = transcription\<rparr>))))
      else if optMethod = ''topfreqs'' then
        (case getTopCandidates srt freqs pxx of
           Inl e \<Rightarrow> Inl e
         | Inr candidates \<Rightarrow> hashed fmt sha sampleBlock candidates)
      else if optMethod = ''freqbands'' then
        (case getBandedCandidates srt ord freqs pxx of
           Inl e \<Rightarrow> Inl e
         | Inr candidates \<Rightarrow> hashed fmt sha sampleBlock (Some candidates))
      else Inl (UnknownMethod optMethod))"

definition New ::
  "('d pcm_Buffer option \<Rightarrow> int \<Rightarrow> real list \<times> real list)
     \<Rightarrow> ('d pcm_Buffer option \<Rightarrow> int \<Rightarrow> real list \<times> real list)
     \<Rightarrow> sorter \<Rightarrow> range_order \<Rightarrow> (real \<Rightarrow> string) \<Rightarrow> (string \<Rightarrow> byte list)
     \<Rightarrow> 'd pcm_Buffer option \<Rightarrow> int \<Rightarrow> int \<Rightarrow> bool \<Rightarrow> error + Fingerprint option" where
  "New pwelch overlap srt ord fmt sha sampleBlock sampleRate optSpectralAnalyser optVerbose =
     (if optSpectralAnalyser = SA_PWELCH then
        (case pwelch sampleBlock sampleRate of
           (pxx, freqs) \<Rightarrow> New_method srt ord fmt sha ''transcribe'' sampleBlock freqs pxx)
      else if optSpectralAnalyser = SA_BESPOKE then
        (case overlap sampleBlock sampleRate of
           (pxx, freqs) \<Rightarrow> New_method srt ord fmt sha ''transcribe'' sampleBlock freqs pxx)
      else Inl (UnrecognisedAnalyser optSpectralAnalyser))"

text \<open>
  What a caller can observe of a result of \<^verbatim>\<open>New\<close> when the order of the candidates of
  equal frequency is left aside: the panic, or \<^verbatim>\<open>nil\<close>, or the key, the timestamp, the
  transcription and the candidates as a multiset.
\<close>

definition observable :: "error + Fingerprint option \<Rightarrow> error + (byte list \<times> real \<times> Chroma list option \<times> candidate multiset option) option" where
  "observable r = map_sum id (map_option (\<lambda>fp. (Key fp, Timestamp fp, Transcription fp, map_option mset (Candidates fp)))) r"

subsection \<open>The operations as the specification words them\<close>

text \<open>
  The pitch classifier of the specification: the semitone distance
  \<open>ln (frequency / 440) / ln (2 ^ (1 / 12))\<close>, rounded to the nearest integer, modulo 12
  with a non-negative result.
\<close>

definition classify_spec :: "real \<Rightarrow> int" where
  "classify_spec frequency = round (ln (frequency / 440) / ln (2 powr (1 / 12))) mod 12"

text \<open>The maximum strength across the bins of a transcription.\<close>

definition max_strength_spec :: "Chroma list \<Rightarrow> real" where
  "max_strength_spec t = Max (Strength ` set t)"

section \<open>Properties\<close>

subsection \<open>Conversions and logarithms\<close>

lemma go_int_nonneg: "0 \<le> x \<Longrightarrow> go_int x = \<lfloor>x\<rfloor>"
  by (simp add: go_int_def)

lemma go_int_neg: "x < 0 \<Longrightarrow> go_int x = \<lceil>x\<rceil>"
  by (simp add: go_int_def)

lemma ln2_gt: "(133/200::real) < ln 2"
proof -
  have e: "exp (133/1600 :: real) \<le> 1 + 133/1600 + (133/1600)\<^sup>2"
    by (rule exp_bound) simp_all
  have "exp (133/200 :: real) = exp (of_nat 8 * (133/1600))" by simp
  also have "\<dots> = exp (133/1600) ^ 8" by (rule exp_of_nat_mult)
  also have "\<dots> \<le> (1 + 133/1600 + (133/1600)\<^sup>2) ^ 8"
    by (rule power_mono [OF e]) simp
  also have "\<dots> < 2" by (simp add: power2_eq_square power_divide)
  finally have "exp (133/200 :: real) < exp (ln 2)" by simp
  then show ?thesis by (simp only: exp_less_cancel_iff)
qed

lemma ln2_lt: "ln 2 < (18/25::real)"
proof -
  have e: "1 + 9/25 + (9/25)\<^sup>2 / 2 \<le> exp (9/25 :: real)"
    by (rule exp_lower_Taylor_quadratic) simp
  have "(2::real) < (1 + 9/25 + (9/25)\<^sup>2 / 2) ^ 2" by (simp add: power2_eq_square)
  also have "\<dots> \<le> exp (9/25) ^ 2"
    by (rule power_mono [OF e]) simp
  also have "\<dots> = exp (of_nat 2 * (9/25 :: real))" by (rule exp_of_nat_mult [symmetric])
  also have "\<dots> = exp (18/25)" by simp
  finally have "exp (ln 2) < exp (18/25 :: real)" by simp
  then show ?thesis by (simp only: exp_less_cancel_iff)
qed

subsection \<open>The pitch classifier\<close>

lemma smod_12_range: "- 12 < (k::int) smod 12 \<and> k smod 12 < 12"
proof -
  have "0 \<le> \<bar>k\<bar> mod 12" "\<bar>k\<bar> mod 12 < 12" by simp_all
  then show ?thesis
    by (auto simp add: signed_modulo_int_def sgn_if)
qed

text \<open>Whatever the frequency, the note is one of the twelve.\<close>

lemma freqNote_range: "0 \<le> freqNote f \<and> freqNote f < 12"
  using smod_12_range [of "go_int (noteSteps f + 0.5)"]
  by (auto simp add: freqNote_def MAX_NOTE_def Let_def)

lemma freqNote_440: "freqNote 440 = 0"
  by (simp add: freqNote_def noteSteps_def go_int_def MAX_NOTE_def)

lemma noteSteps_466: "1/2 \<le> noteSteps 466.16 \<and> noteSteps 466.16 < 3/2"
proof -
  have eq: "(466.16 / 440.0 :: real) = 1 + 327/5500" by simp
  have up: "ln (1 + 327/5500 :: real) \<le> 327/5500"
    by (rule ln_add_one_self_le_self) simp
  have lo: "327/5500 - (327/5500)\<^sup>2 \<le> ln (1 + 327/5500 :: real)"
    by (rule ln_one_plus_pos_lower_bound) simp_all
  have "noteSteps 466.16 = ln (1 + 327/5500) / LOGNA"
    unfolding noteSteps_def eq ..
  then show ?thesis
    using up lo by (simp add: LOGNA_def field_simps power2_eq_square)
qed

lemma freqNote_466: "freqNote 466.16 = 1"
proof -
  have "\<lfloor>noteSteps 466.16 + 0.5\<rfloor> = 1"
    using noteSteps_466 by (simp add: floor_eq_iff)
  moreover have "0 \<le> noteSteps 466.16 + 0.5" using noteSteps_466 by simp
  ultimately have "go_int (noteSteps 466.16 + 0.5) = 1" by (simp only: go_int_nonneg)
  then show ?thesis by (simp add: freqNote_def MAX_NOTE_def signed_modulo_int_def)
qed

lemma noteSteps_220: "- 25/2 < noteSteps 220 \<and> noteSteps 220 < - 23/2"
proof -
  have "noteSteps 220 = - ln 2 / LOGNA"
    by (simp add: noteSteps_def ln_div)
  then show ?thesis
    using ln2_gt ln2_lt by (simp add: field_simps LOGNA_def)
qed

lemma classify_spec_220: "classify_spec 220 = 0"
proof -
  have "ln (220 / 440 :: real) = - ln 2" by (simp add: ln_div)
  moreover have "ln (2 powr (1 / 12) :: real) = ln 2 / 12" by simp
  moreover have "ln (2::real) \<noteq> 0" by simp
  ultimately have "ln (220 / 440 :: real) / ln (2 powr (1 / 12)) = - 12" by simp
  then show ?thesis by (simp add: classify_spec_def)
qed

text \<open>
  C1 at 220 Hz, the A one octave below the reference. The semitone distance is \<open>-12\<close>
  (between \<open>-12.5\<close> and \<open>-11.5\<close> with the constant \<open>LOGNA\<close>); \<^verbatim>\<open>int(steps + 0.5)\<close>
  truncates \<open>-11.5\<close> toward zero to \<open>-11\<close>, not to the nearest integer \<open>-12\<close>, and the
  note is \<open>-11 % 12 + 12 = 1\<close>, that is A#, where rounding to the nearest integer and
  the mathematical modulo give \<open>0\<close>, that is A.
\<close>

theorem freqNote_220_is_A_sharp: "freqNote 220 = 1 \<and> classify_spec 220 = 0"
proof -
  have "\<lceil>noteSteps 220 + 0.5\<rceil> = - 11"
    using noteSteps_220 by (simp add: ceiling_eq_iff)
  moreover have "noteSteps 220 + 0.5 < 0" using noteSteps_220 by simp
  ultimately have "go_int (noteSteps 220 + 0.5) = - 11" by (simp only: go_int_neg)
  then have "freqNote 220 = 1"
    by (simp add: freqNote_def MAX_NOTE_def signed_modulo_int_def)
  with classify_spec_220 show ?thesis by simp
qed

subsection \<open>The quantiser\<close>




lemma fuzzyFreq_tens:
  "fuzzyFreq 1000 = 1000" "fuzzyFreq 2000 = 2000" "fuzzyFreq 3000 = 3000"
  "fuzzyFreq 4000 = 4000" "fuzzyFreq 5000 = 5000" "fuzzyFreq 100 = 100" "fuzzyFreq 2500 = 2500"
  by (simp_all add: fuzzyFreq_def go_int_def)

subsection \<open>The transcriber\<close>

lemma freqNote_446: "freqNote 446 = 0"
proof -
  have eq: "(446 / 440.0 :: real) = 1 + 3/220" by simp
  have up: "ln (1 + 3/220 :: real) \<le> 3/220"
    by (rule ln_add_one_self_le_self) simp
  have lo: "0 \<le> ln (1 + 3/220 :: real)" by simp
  have st: "noteSteps 446 = ln (1 + 3/220) / LOGNA"
    unfolding noteSteps_def eq ..
  have "0 \<le> noteSteps 446 \<and> noteSteps 446 < 1/2"
    unfolding st using up lo by (simp add: LOGNA_def field_simps)
  then have "0 \<le> noteSteps 446 + 0.5" "\<lfloor>noteSteps 446 + 0.5\<rfloor> = 0"
    by (simp_all add: floor_eq_iff)
  then have "go_int (noteSteps 446 + 0.5) = 0" by (simp only: go_int_nonneg)
  then show ?thesis by (simp add: freqNote_def MAX_NOTE_def)
qed

lemma fuzzyFreq_440: "fuzzyFreq 440 = 440"
  by (simp add: fuzzyFreq_def go_int_def)

lemma freqNote_index: "nat (freqNote v) < 12"
  using freqNote_range [of v] by linarith

lemma transcribeLoop_skip:
  "p \<le> LOWER_POWER_CUTOFF \<or> p \<le> Strength (t ! nat (freqNote v)) \<Longrightarrow>
   transcribeLoop (v # freqs) (p # pxx) (t, c) = transcribeLoop freqs pxx (t, c)"
  by (auto simp add: Let_def)

lemma transcribeLoop_total:
  "length freqs \<le> length pxx \<Longrightarrow> \<exists>st'. transcribeLoop freqs pxx st = Inr st'"
  by (induction freqs pxx st rule: transcribeLoop.induct) (auto simp add: Let_def)

lemma transcribeLoop_mono:
  "transcribeLoop freqs pxx (t, c) = Inr (t', c') \<Longrightarrow> length t = 12 \<Longrightarrow>
   length t' = 12 \<and> c \<le> c' \<and> (\<forall>i<12. Strength (t ! i) \<le> Strength (t' ! i))"
proof (induction freqs arbitrary: pxx t c)
  case Nil
  then show ?case by simp
next
  case (Cons v freqs)
  from Cons.prems(1) obtain p pxx' where pxx: "pxx = p # pxx'"
    by (cases pxx) simp_all
  let ?n = "nat (freqNote v)"
  let ?t = "t[?n := \<lparr>Note = int ?n, ChromaFreq = fuzzyFreq v, Strength = p\<rparr>]"
  show ?case
  proof (cases "p > Strength (t ! ?n) \<and> p > LOWER_POWER_CUTOFF \<and> v > LOWER_FREQ_CUTOFF")
    case True
    with Cons.prems(1) have run: "transcribeLoop freqs pxx' (?t, c + 1) = Inr (t', c')"
      by (simp add: pxx Let_def)
    have len: "length ?t = 12" using Cons.prems(2) by simp
    have ih: "length t' = 12 \<and> c + 1 \<le> c' \<and> (\<forall>i<12. Strength (?t ! i) \<le> Strength (t' ! i))"
      by (rule Cons.IH [OF run len])
    have "Strength (t ! i) \<le> Strength (?t ! i)" if "i < 12" for i
      using that True Cons.prems(2) by (cases "i = ?n") simp_all
    with ih show ?thesis by (auto intro: order_trans)
  next
    case False
    with Cons.prems(1) have run: "transcribeLoop freqs pxx' (t, c) = Inr (t', c')"
      by (auto simp add: pxx Let_def split: if_splits)
    show ?thesis by (rule Cons.IH [OF run Cons.prems(2)])
  qed
qed

lemma transcribeLoop_append:
  "length freqs = length pxx \<Longrightarrow>
   transcribeLoop (freqs @ freqs') (pxx @ pxx') st =
     (case transcribeLoop freqs pxx st of Inl e \<Rightarrow> Inl e | Inr st' \<Rightarrow> transcribeLoop freqs' pxx' st')"
  by (induction freqs pxx st rule: transcribeLoop.induct) (auto simp add: Let_def)

lemma transcribeLoop_quiet:
  "length freqs \<le> length pxx \<Longrightarrow> \<forall>(v, p)\<in>set (zip freqs pxx). p \<le> LOWER_POWER_CUTOFF \<Longrightarrow>
   transcribeLoop freqs pxx st = Inr st"
  by (induction freqs pxx st rule: transcribeLoop.induct) (auto simp add: Let_def)


lemma transcribeLoop_holds:
  assumes run: "transcribeLoop (v # freqs) (p # pxx) (t, c) = Inr (t', c')"
    and len: "length t = 12" and v: "LOWER_FREQ_CUTOFF < v"
  shows "length t' = 12 \<and> (p \<le> LOWER_POWER_CUTOFF \<or> p \<le> Strength (t' ! nat (freqNote v)))"
proof -
  let ?n = "nat (freqNote v)"
  let ?t = "t[?n := \<lparr>Note = int ?n, ChromaFreq = fuzzyFreq v, Strength = p\<rparr>]"
  have n: "?n < 12" by (rule freqNote_index)
  show ?thesis
  proof (cases "p > Strength (t ! ?n) \<and> p > LOWER_POWER_CUTOFF")
    case True
    with run v have "transcribeLoop freqs pxx (?t, c + 1) = Inr (t', c')"
      by (simp add: Let_def)
    moreover have "length ?t = 12" using len by simp
    ultimately have "length t' = 12 \<and> c + 1 \<le> c' \<and> (\<forall>i<12. Strength (?t ! i) \<le> Strength (t' ! i))"
      by (rule transcribeLoop_mono)
    moreover have "Strength (?t ! ?n) = p" using n len by simp
    ultimately show ?thesis using n by auto
  next
    case False
    with run have "transcribeLoop freqs pxx (t, c) = Inr (t', c')"
      by (auto simp add: Let_def split: if_splits)
    then have "length t' = 12 \<and> c \<le> c' \<and> (\<forall>i<12. Strength (t ! i) \<le> Strength (t' ! i))"
      using len by (rule transcribeLoop_mono)
    with False n show ?thesis by force
  qed
qed

lemma transcribeLoop_first_wins:
  assumes l1: "length freqs1 = length pxx1" and l2: "length freqs2 = length pxx2"
    and same: "freqNote v1 = freqNote v2" and v1: "LOWER_FREQ_CUTOFF < v1"
    and len: "length t = 12"
  shows "transcribeLoop (freqs1 @ v1 # freqs2 @ v2 # freqs3) (pxx1 @ p # pxx2 @ p # pxx3) (t, c)
       = transcribeLoop (freqs1 @ v1 # freqs2 @ freqs3) (pxx1 @ p # pxx2 @ pxx3) (t, c)"
proof -
  from l1 obtain t1 c1 where r1: "transcribeLoop freqs1 pxx1 (t, c) = Inr (t1, c1)"
    using transcribeLoop_total [of freqs1 pxx1 "(t, c)"] by auto
  then have len1: "length t1 = 12"
    using len transcribeLoop_mono by blast
  from l2 obtain t3 c3 where r3: "transcribeLoop (v1 # freqs2) (p # pxx2) (t1, c1) = Inr (t3, c3)"
    using transcribeLoop_total [of "v1 # freqs2" "p # pxx2" "(t1, c1)"] by auto
  then have h: "length t3 = 12 \<and> (p \<le> LOWER_POWER_CUTOFF \<or> p \<le> Strength (t3 ! nat (freqNote v1)))"
    using len1 v1 by (rule transcribeLoop_holds)
  have l12: "length (v1 # freqs2) = length (p # pxx2)" using l2 by simp
  have "transcribeLoop (freqs1 @ (v1 # freqs2) @ (v2 # freqs3)) (pxx1 @ (p # pxx2) @ (p # pxx3)) (t, c)
      = transcribeLoop (v2 # freqs3) (p # pxx3) (t3, c3)"
    by (simp only: transcribeLoop_append [OF l1] transcribeLoop_append [OF l12] r1 r3 sum.case)
  also have "\<dots> = transcribeLoop freqs3 pxx3 (t3, c3)"
    using h by (intro transcribeLoop_skip) (simp add: same)
  also have "\<dots> = transcribeLoop (freqs1 @ (v1 # freqs2) @ freqs3) (pxx1 @ (p # pxx2) @ pxx3) (t, c)"
    by (simp only: transcribeLoop_append [OF l1] transcribeLoop_append [OF l12] r1 r3 sum.case)
  finally show ?thesis by simp
qed

lemma init_length: "length (replicate (nat MAX_NOTE) emptyChroma) = 12"
  by (simp add: MAX_NOTE_def)

lemma transcribeLoop_committed:
  "transcribeLoop freqs pxx (t, c) = Inr (t', c') \<Longrightarrow> length t = 12 \<Longrightarrow> c < c' \<Longrightarrow>
   \<exists>i<12. LOWER_POWER_CUTOFF < Strength (t' ! i)"
proof (induction freqs arbitrary: pxx t c)
  case Nil
  then show ?case by simp
next
  case (Cons v freqs)
  from Cons.prems(1) obtain p pxx' where pxx: "pxx = p # pxx'"
    by (cases pxx) simp_all
  let ?n = "nat (freqNote v)"
  let ?t = "t[?n := \<lparr>Note = int ?n, ChromaFreq = fuzzyFreq v, Strength = p\<rparr>]"
  have n: "?n < 12" by (rule freqNote_index)
  show ?case
  proof (cases "p > Strength (t ! ?n) \<and> p > LOWER_POWER_CUTOFF \<and> v > LOWER_FREQ_CUTOFF")
    case True
    with Cons.prems(1) have run: "transcribeLoop freqs pxx' (?t, c + 1) = Inr (t', c')"
      by (simp add: pxx Let_def)
    have len: "length ?t = 12" using Cons.prems(2) by simp
    from transcribeLoop_mono [OF run len] have "Strength (?t ! ?n) \<le> Strength (t' ! ?n)"
      using n by blast
    moreover have "Strength (?t ! ?n) = p" using n Cons.prems(2) by simp
    ultimately show ?thesis using True n by force
  next
    case False
    with Cons.prems(1) have run: "transcribeLoop freqs pxx' (t, c) = Inr (t', c')"
      by (auto simp add: pxx Let_def split: if_splits)
    show ?thesis by (rule Cons.IH [OF run Cons.prems(2,3)])
  qed
qed

text \<open>
  C7. A sample whose power is not above the recorded strength of its bin leaves the table
  and the count as they are: only a strictly greater power replaces. So of two samples
  of the same pitch class and of equal power \<open>p\<close>, the first a valid frequency (above
  the frequency floor), the later one has no effect, wherever the two stand in the frame:
  \<^verbatim>\<open>transcribe\<close> returns what it returns without it. For a frame of just these two
  (their power above the floor), the bin holds the note, the quantised frequency of the
  first and the strength \<open>p\<close>.
\<close>

theorem transcribe_first_seen_wins:
  "(q \<le> Strength (t ! nat (freqNote v)) \<longrightarrow> transcribeLoop [v] [q] (t, c) = Inr (t, c))
   \<and> (length freqs1 = length pxx1 \<and> length freqs2 = length pxx2
        \<and> freqNote v1 = freqNote v2 \<and> LOWER_FREQ_CUTOFF < v1 \<longrightarrow>
      transcribe (freqs1 @ v1 # freqs2 @ v2 # freqs3) (pxx1 @ p # pxx2 @ p # pxx3)
        = transcribe (freqs1 @ v1 # freqs2 @ freqs3) (pxx1 @ p # pxx2 @ pxx3))
   \<and> (freqNote v1 = freqNote v2 \<and> LOWER_FREQ_CUTOFF < v1 \<and> LOWER_POWER_CUTOFF < p \<longrightarrow>
      transcribe [v1, v2] [p, p]
        = Inr (Some ((replicate 12 emptyChroma)
            [nat (freqNote v1) := \<lparr>Note = freqNote v1, ChromaFreq = fuzzyFreq v1, Strength = p\<rparr>])))"
proof (intro conjI impI)
  assume "q \<le> Strength (t ! nat (freqNote v))"
  then show "transcribeLoop [v] [q] (t, c) = Inr (t, c)"
    by (simp add: transcribeLoop_skip)
next
  assume "length freqs1 = length pxx1 \<and> length freqs2 = length pxx2
        \<and> freqNote v1 = freqNote v2 \<and> LOWER_FREQ_CUTOFF < v1"
  then show "transcribe (freqs1 @ v1 # freqs2 @ v2 # freqs3) (pxx1 @ p # pxx2 @ p # pxx3)
        = transcribe (freqs1 @ v1 # freqs2 @ freqs3) (pxx1 @ p # pxx2 @ pxx3)"
    unfolding transcribe_def
    by (simp only: transcribeLoop_first_wins [OF _ _ _ _ init_length])
next
  assume a: "freqNote v1 = freqNote v2 \<and> LOWER_FREQ_CUTOFF < v1 \<and> LOWER_POWER_CUTOFF < p"
  have n: "nat (freqNote v1) < 12" by (rule freqNote_index)
  have nn: "0 \<le> freqNote v1" using freqNote_range by blast
  from a have p: "0 < p" by (simp add: LOWER_POWER_CUTOFF_def)
  have e: "Strength (replicate 12 emptyChroma ! nat (freqNote v1)) = 0"
    using n by (simp add: emptyChroma_def)
  from a have s: "freqNote v2 = freqNote v1" by simp
  show "transcribe [v1, v2] [p, p]
        = Inr (Some ((replicate 12 emptyChroma)
            [nat (freqNote v1) := \<lparr>Note = freqNote v1, ChromaFreq = fuzzyFreq v1, Strength = p\<rparr>]))"
    using a p n nn e by (simp add: transcribe_def MAX_NOTE_def Let_def s)
qed

theorem transcribe_first_seen_wins_witness:
  "(0::real) \<le> Strength (replicate 12 emptyChroma ! nat (freqNote 440))
   \<and> transcribeLoop [440] [0] (replicate 12 emptyChroma, 0) = Inr (replicate 12 emptyChroma, 0)
   \<and> freqNote 440 = freqNote 446 \<and> LOWER_FREQ_CUTOFF < 440 \<and> LOWER_POWER_CUTOFF < 500
   \<and> transcribe [440, 446] [500, 500] = transcribe [440] [500]
   \<and> transcribe [440, 446] [500, 500]
       = Inr (Some ((replicate 12 emptyChroma)[0 := \<lparr>Note = 0, ChromaFreq = 440, Strength = 500\<rparr>]))"
  using transcribe_first_seen_wins [where q = 0 and t = "replicate 12 emptyChroma" and v = 440
      and c = 0 and ?freqs1.0 = "[]" and ?pxx1.0 = "[]" and ?freqs2.0 = "[]" and ?pxx2.0 = "[]"
      and ?v1.0 = 440 and ?v2.0 = 446 and ?freqs3.0 = "[]" and ?pxx3.0 = "[]" and p = 500]
  by (auto simp add: freqNote_440 freqNote_446 fuzzyFreq_440 emptyChroma_def
      LOWER_FREQ_CUTOFF_def LOWER_POWER_CUTOFF_def)

lemma audioKey_None: "audioKey fmt sha None = Inr None"
  by (simp add: audioKey_def)

text \<open>
  C4. In a frame in which the power of every sample is at or below the power floor, no
  bin is ever committed: \<^verbatim>\<open>transcribe\<close> returns \<^verbatim>\<open>nil\<close>, \<^verbatim>\<open>audioKey\<close> returns \<^verbatim>\<open>nil\<close> for
  it, and \<^verbatim>\<open>New\<close>, which runs the transcription pipeline, returns no fingerprint, with
  either analyser. The samples are the pairs \<^verbatim>\<open>(freqs[i], Pxx[i])\<close>, so \<^verbatim>\<open>Pxx\<close> is at
  least as long as \<^verbatim>\<open>freqs\<close>.
\<close>

theorem transcribe_below_floor_absent:
  assumes len: "length freqs \<le> length pxx"
    and quiet: "\<forall>(v, p)\<in>set (zip freqs pxx). p \<le> LOWER_POWER_CUTOFF"
  shows "transcribe freqs pxx = Inr None
    \<and> New_method srt ord fmt sha ''transcribe'' sampleBlock freqs pxx = Inr None
    \<and> (optSpectralAnalyser = SA_PWELCH \<and> pwelch sampleBlock sampleRate = (pxx, freqs)
        \<or> optSpectralAnalyser = SA_BESPOKE \<and> overlap sampleBlock sampleRate = (pxx, freqs) \<longrightarrow>
       New pwelch overlap srt ord fmt sha sampleBlock sampleRate optSpectralAnalyser optVerbose
         = Inr None)"
proof -
  have t: "transcribe freqs pxx = Inr None"
    unfolding transcribe_def by (simp add: transcribeLoop_quiet [OF len quiet])
  then have m: "New_method srt ord fmt sha ''transcribe'' sampleBlock freqs pxx = Inr None"
    by (simp add: New_method_def audioKey_None)
  then show ?thesis using t
    by (auto simp add: New_def SA_PWELCH_def SA_BESPOKE_def)
qed

theorem transcribe_below_floor_absent_witness:
  "length [440, 880 :: real] \<le> length [50, 100 :: real]
   \<and> (50::real) \<le> LOWER_POWER_CUTOFF \<and> (100::real) \<le> LOWER_POWER_CUTOFF
   \<and> transcribe [440, 880] [50, 100] = Inr None
   \<and> New (\<lambda>b r. ([50, 100], [440, 880])) (\<lambda>b r. ([], [])) insertionSort id (\<lambda>f. []) (\<lambda>s. [])
        (Some \<lparr>BufferData = (), BufferTimestamp = 3 / 2\<rparr>) 11025 SA_PWELCH False = Inr None"
  using transcribe_below_floor_absent [where freqs = "[440, 880]" and pxx = "[50, 100]"
      and optSpectralAnalyser = SA_PWELCH and pwelch = "\<lambda>b r. ([50, 100], [440, 880])"
      and overlap = "\<lambda>b r. ([], [])" and srt = insertionSort and ord = id
      and fmt = "\<lambda>f. []" and sha = "\<lambda>s. []"
      and sampleBlock = "Some \<lparr>BufferData = (), BufferTimestamp = 3 / 2\<rparr>"
      and sampleRate = 11025 and optVerbose = False]
  by (simp add: LOWER_POWER_CUTOFF_def)

subsection \<open>The power key\<close>





text \<open>
  Every transcription that \<^verbatim>\<open>transcribe\<close> returns has twelve bins, no negative strength,
  and a maximum strength above the power floor: \<^verbatim>\<open>audioKey\<close> never divides by zero on it.
\<close>

lemma transcribe_wellformed:
  assumes "transcribe freqs pxx = Inr (Some t)"
  shows "length t = 12 \<and> (\<forall>v\<in>set t. 0 \<le> Strength v) \<and> LOWER_POWER_CUTOFF < max_strength_spec t"
proof -
  let ?t0 = "replicate (nat MAX_NOTE) emptyChroma"
  from assms obtain c where run: "transcribeLoop freqs pxx (?t0, 0) = Inr (t, c)" and c: "0 < c"
    by (auto simp add: transcribe_def split: sum.splits if_splits)
  note m = transcribeLoop_mono [OF run init_length]
  then have len: "length t = 12" by blast
  have "0 \<le> Strength (t ! i)" if "i < 12" for i
  proof -
    have "Strength (?t0 ! i) = 0" using that by (simp add: MAX_NOTE_def emptyChroma_def)
    with m that show ?thesis by force
  qed
  then have nn: "\<forall>v\<in>set t. 0 \<le> Strength v"
    using len by (auto simp add: in_set_conv_nth)
  from transcribeLoop_committed [OF run init_length c]
  obtain i where i: "i < 12" "LOWER_POWER_CUTOFF < Strength (t ! i)" by blast
  then have "Strength (t ! i) \<in> Strength ` set t" using len by simp
  then have "Strength (t ! i) \<le> max_strength_spec t"
    by (simp add: max_strength_spec_def)
  with i len nn show ?thesis by simp
qed



subsection \<open>Sorting\<close>

lemma mset_insert_by: "mset (insert_by lt x xs) = add_mset x (mset xs)"
  by (induction xs) simp_all

lemma set_insert_by: "set (insert_by lt x xs) = insert x (set xs)"
  by (induction xs) auto

lemma sorted_insert_by:
  fixes key :: "'a \<Rightarrow> real"
  shows "sorted_wrt (\<lambda>a b. \<not> key b < key a) xs \<Longrightarrow>
         sorted_wrt (\<lambda>a b. \<not> key b < key a) (insert_by (\<lambda>a b. key a < key b) x xs)"
  by (induction xs) (auto simp add: set_insert_by)

lemma mset_insertionSort: "mset (insertionSort lt xs) = mset xs"
  by (induction xs) (simp_all add: insertionSort_def mset_insert_by)

lemma sorted_insertionSort:
  fixes key :: "'a \<Rightarrow> real"
  shows "sorted_wrt (\<lambda>a b. \<not> key b < key a) (insertionSort (\<lambda>a b. key a < key b) xs)"
  by (induction xs) (simp_all add: insertionSort_def sorted_insert_by)

lemma insertionSort_contract: "sort_contract insertionSort"
  unfolding sort_contract_def by (simp add: mset_insertionSort sorted_insertionSort)

lemma Reverse_ByPxx: "Reverse ByPxx_Less = (\<lambda>a b. - Pxx a < - Pxx b)"
  by (intro ext) (simp add: Reverse_def ByPxx_Less_def)

lemma Reverse_ByFreq: "Reverse ByFreq_Less = (\<lambda>a b. - Freq a < - Freq b)"
  by (intro ext) (simp add: Reverse_def ByFreq_Less_def)

lemma sort_by_power:
  assumes "sort_contract srt"
  shows "mset (srt (Reverse ByPxx_Less) xs) = mset xs"
    and "sorted_wrt (\<lambda>a b. Pxx b \<le> Pxx a) (srt (Reverse ByPxx_Less) xs)"
  using assms [unfolded sort_contract_def, rule_format, of "\<lambda>c. - Pxx c" xs]
  by (simp_all add: Reverse_ByPxx not_less)

lemma sort_by_freq:
  assumes "sort_contract srt"
  shows "mset (srt (Reverse ByFreq_Less) xs) = mset xs"
    and "sorted_wrt (\<lambda>a b. Freq b \<le> Freq a) (srt (Reverse ByFreq_Less) xs)"
  using assms [unfolded sort_contract_def, rule_format, of "\<lambda>c. - Freq c" xs]
  by (simp_all add: Reverse_ByFreq not_less)

subsection \<open>The top-N selector\<close>

lemma topLoop_admissible:
  "length pxx \<le> length freqs \<Longrightarrow>
   topLoop freqs pxx cs = Inr (cs @ map candidate_of (admissible freqs pxx))"
proof (induction pxx arbitrary: freqs cs)
  case Nil
  then show ?case by (simp add: admissible_def)
next
  case (Cons v pxx)
  then obtain f freqs' where f: "freqs = f # freqs'" by (cases freqs) simp_all
  with Cons.prems have len: "length pxx \<le> length freqs'" by simp
  show ?case
    by (simp add: f Cons.IH [OF len] admissible_def candidate_of_def)
qed

text \<open>
  C5. Whatever sorter meets the contract of \<^verbatim>\<open>sort.Sort\<close>: with fewer than
  \<open>REQUIRED_CANDIDATES\<close> admissible samples \<^verbatim>\<open>getTopCandidates\<close> returns \<^verbatim>\<open>nil\<close>; with
  that many or more it returns exactly \<open>REQUIRED_CANDIDATES\<close> candidates, sorted descending
  by frequency, which are admissible samples (quantised) and the strongest of them: every
  admissible candidate left out has a power at most that of every candidate returned.
  \<^verbatim>\<open>freqs\<close> is at least as long as \<^verbatim>\<open>Pxx\<close>.
\<close>

theorem getTopCandidates_top:
  assumes srt: "sort_contract srt" and len: "length pxx \<le> length freqs"
  shows "(length (admissible freqs pxx) < REQUIRED_CANDIDATES \<longrightarrow>
            getTopCandidates srt freqs pxx = Inr None)
       \<and> (REQUIRED_CANDIDATES \<le> length (admissible freqs pxx) \<longrightarrow>
            (\<exists>top rest. getTopCandidates srt freqs pxx = Inr (Some top)
               \<and> length top = REQUIRED_CANDIDATES
               \<and> sorted_wrt (\<lambda>a b. Freq a \<ge> Freq b) top
               \<and> mset top + mset rest = mset (map candidate_of (admissible freqs pxx))
               \<and> (\<forall>a\<in>set top. \<forall>b\<in>set rest. Pxx b \<le> Pxx a)))"
proof -
  let ?cs = "map candidate_of (admissible freqs pxx)"
  let ?by_power = "srt (Reverse ByPxx_Less) ?cs"
  let ?top = "srt (Reverse ByFreq_Less) (take REQUIRED_CANDIDATES ?by_power)"
  let ?rest = "drop REQUIRED_CANDIDATES ?by_power"
  have loop: "topLoop freqs pxx [] = Inr ?cs"
    using topLoop_admissible [OF len, of "[]"] by simp
  have m: "mset ?by_power = mset ?cs" by (rule sort_by_power(1) [OF srt])
  then have l: "length ?by_power = length (admissible freqs pxx)"
    using mset_eq_length by fastforce
  have short: "getTopCandidates srt freqs pxx = Inr None"
    if "length (admissible freqs pxx) < REQUIRED_CANDIDATES"
    using that by (simp add: getTopCandidates_def loop l)
  have long: "\<exists>top rest. getTopCandidates srt freqs pxx = Inr (Some top)
               \<and> length top = REQUIRED_CANDIDATES
               \<and> sorted_wrt (\<lambda>a b. Freq a \<ge> Freq b) top
               \<and> mset top + mset rest = mset ?cs
               \<and> (\<forall>a\<in>set top. \<forall>b\<in>set rest. Pxx b \<le> Pxx a)"
    if enough: "REQUIRED_CANDIDATES \<le> length (admissible freqs pxx)"
  proof -
    have r: "getTopCandidates srt freqs pxx = Inr (Some ?top)"
      using enough by (simp add: getTopCandidates_def loop l)
    have mt: "mset ?top = mset (take REQUIRED_CANDIDATES ?by_power)"
      by (rule sort_by_freq(1) [OF srt])
    then have "length ?top = length (take REQUIRED_CANDIDATES ?by_power)"
      by (rule mset_eq_length)
    then have lt: "length ?top = REQUIRED_CANDIDATES" using enough l by simp
    have st: "sorted_wrt (\<lambda>a b. Freq a \<ge> Freq b) ?top"
      by (rule sort_by_freq(2) [OF srt])
    have "mset (take REQUIRED_CANDIDATES ?by_power) + mset ?rest = mset ?by_power"
      by (metis append_take_drop_id mset_append)
    then have ms: "mset ?top + mset ?rest = mset ?cs" by (simp only: mt m)
    have "sorted_wrt (\<lambda>a b. Pxx b \<le> Pxx a) (take REQUIRED_CANDIDATES ?by_power @ ?rest)"
      using sort_by_power(2) [OF srt, of ?cs] by simp
    then have "\<forall>a\<in>set (take REQUIRED_CANDIDATES ?by_power). \<forall>b\<in>set ?rest. Pxx b \<le> Pxx a"
      by (simp only: sorted_wrt_append) blast
    moreover have "set ?top = set (take REQUIRED_CANDIDATES ?by_power)"
      using mt by (rule mset_eq_setD)
    ultimately have best: "\<forall>a\<in>set ?top. \<forall>b\<in>set ?rest. Pxx b \<le> Pxx a" by simp
    from r lt st ms best show ?thesis by blast
  qed
  from short long show ?thesis by blast
qed

theorem getTopCandidates_top_witness:
  "sort_contract insertionSort
   \<and> length [500, 200, 300, 400, 600 :: real] \<le> length [1000, 2000, 3000, 4000, 5000 :: real]
   \<and> length (admissible [1000, 2000, 3000, 4000, 5000] [500, 200, 300, 400, 600]) = 5
   \<and> (\<exists>top. getTopCandidates insertionSort [1000, 2000, 3000, 4000, 5000] [500, 200, 300, 400, 600]
          = Inr (Some top) \<and> length top = REQUIRED_CANDIDATES)
   \<and> getTopCandidates insertionSort [1000, 2000, 3000, 4000, 5000] [500, 200, 300, 400, 600]
       = Inr (Some [\<lparr>Freq = 5000, Pxx = 600\<rparr>, \<lparr>Freq = 4000, Pxx = 400\<rparr>,
                    \<lparr>Freq = 3000, Pxx = 300\<rparr>, \<lparr>Freq = 1000, Pxx = 500\<rparr>])
   \<and> length (admissible [1000, 2000] [500, 50]) = 1
   \<and> getTopCandidates insertionSort [1000, 2000] [500, 50] = Inr None"
proof -
  have a5: "length (admissible [1000, 2000, 3000, 4000, 5000] [500, 200, 300, 400, 600]) = 5"
    by (simp add: admissible_def LOWER_POWER_CUTOFF_def LOWER_FREQ_CUTOFF_def)
  have a1: "length (admissible [1000, 2000] [500, 50]) = 1"
    by (simp add: admissible_def LOWER_POWER_CUTOFF_def LOWER_FREQ_CUTOFF_def)
  have l5: "length [500, 200, 300, 400, 600 :: real] \<le> length [1000, 2000, 3000, 4000, 5000 :: real]"
    by simp
  have l1: "length [500, 50 :: real] \<le> length [1000, 2000 :: real]" by simp
  note t5 = getTopCandidates_top [OF insertionSort_contract l5]
  note t1 = getTopCandidates_top [OF insertionSort_contract l1]
  have e5: "\<exists>top. getTopCandidates insertionSort [1000, 2000, 3000, 4000, 5000] [500, 200, 300, 400, 600]
          = Inr (Some top) \<and> length top = REQUIRED_CANDIDATES"
    using t5 a5 by (auto simp add: REQUIRED_CANDIDATES_def)
  have n1: "getTopCandidates insertionSort [1000, 2000] [500, 50] = Inr None"
    using t1 a1 by (simp add: REQUIRED_CANDIDATES_def)
  have v5: "getTopCandidates insertionSort [1000, 2000, 3000, 4000, 5000] [500, 200, 300, 400, 600]
       = Inr (Some [\<lparr>Freq = 5000, Pxx = 600\<rparr>, \<lparr>Freq = 4000, Pxx = 400\<rparr>,
                    \<lparr>Freq = 3000, Pxx = 300\<rparr>, \<lparr>Freq = 1000, Pxx = 500\<rparr>])"
    by (simp add: getTopCandidates_def LOWER_POWER_CUTOFF_def LOWER_FREQ_CUTOFF_def
        fuzzyFreq_tens insertionSort_def Reverse_def ByPxx_Less_def ByFreq_Less_def
        REQUIRED_CANDIDATES_def)
  from insertionSort_contract l5 a5 e5 v5 a1 n1 show ?thesis by blast
qed

subsection \<open>The banded selector\<close>

text \<open>
  What holds of \<^verbatim>\<open>getBandedCandidates\<close> for every frame: the candidates are sorted
  descending by frequency, and there is one for each band that received an admissible
  sample, made of the frequency stored for the band and of its high score.
\<close>

lemma set_update_subset: "set (AList.update k v al) \<subseteq> insert (k, v) (set al)"
  by (induction al) auto

lemma band_inv_update:
  assumes "band_inv (hs, hp)"
  shows "band_inv (AList.update (freqBand f) v hs, AList.update (freqBand f) f hp)"
proof -
  have "e \<in> set (AList.update (freqBand f) f hp) \<Longrightarrow> freqBand (snd e) = fst e" for e
    using assms set_update_subset [of "freqBand f" f hp] by (auto simp add: band_inv_def)
  then show ?thesis
    using assms by (auto simp add: band_inv_def update_keys distinct_update)
qed

lemma bandLoop_inv:
  "bandLoop freqs pxx st = Inr st' \<Longrightarrow> band_inv st \<Longrightarrow> band_inv st'"
proof (induction freqs pxx st rule: bandLoop.induct)
  case (1 freqs st)
  then show ?case by simp
next
  case (2 freqs v pxx highScores highPoints)
  then show ?case
    by (auto simp add: Let_def band_inv_update split: if_splits list.splits)
qed

lemma getBandedCandidates_one_per_band:
  assumes srt: "sort_contract srt" and ord: "range_contract ord"
    and run: "getBandedCandidates srt ord freqs pxx = Inr cs"
  shows "sorted_wrt (\<lambda>a b. Freq b \<le> Freq a) cs
    \<and> (\<exists>highScores highPoints.
          bandLoop freqs pxx ([], []) = Inr (highScores, highPoints)
          \<and> distinct (map fst highPoints)
          \<and> (\<forall>e\<in>set highPoints. freqBand (snd e) = fst e)
          \<and> mset cs = mset (map (\<lambda>(k, v). \<lparr>Freq = fuzzyFreq v, Pxx = map_get highScores k\<rparr>) highPoints))"
proof -
  from run obtain hs hp where loop: "bandLoop freqs pxx ([], []) = Inr (hs, hp)"
    and cs: "cs = srt (Reverse ByFreq_Less)
                (map (\<lambda>(k, v). \<lparr>Freq = fuzzyFreq v, Pxx = map_get hs k\<rparr>) (ord hp))"
    by (auto simp add: getBandedCandidates_def split: sum.splits)
  have "band_inv ([], [])" by (simp add: band_inv_def)
  with loop have inv: "band_inv (hs, hp)" by (rule bandLoop_inv)
  have "mset (ord hp) = mset hp" using ord by (simp add: range_contract_def)
  then have "mset cs = mset (map (\<lambda>(k, v). \<lparr>Freq = fuzzyFreq v, Pxx = map_get hs k\<rparr>) hp)"
    unfolding cs by (simp add: sort_by_freq(1) [OF srt])
  moreover have "sorted_wrt (\<lambda>a b. Freq b \<le> Freq a) cs"
    unfolding cs by (rule sort_by_freq(2) [OF srt])
  ultimately show ?thesis using loop inv by (auto simp add: band_inv_def)
qed

lemma freqBand_values:
  "freqBand 100 = 0" "freqBand 1000 = 1" "freqBand 2500 = 2" "freqBand 4000 = 3" "freqBand 5000 = 4"
  by (simp_all add: freqBand_def go_int_def LOWER_FREQ_CUTOFF_def floor_eq_iff)

lemma bandLoop_five:
  "bandLoop [100, 1000, 2500, 4000, 5000] [200, 200, 200, 200, 200] ([], [])
     = Inr ([(0, 200), (1, 200), (2, 200), (3, 200), (4, 200)],
            [(0, 100), (1, 1000), (2, 2500), (3, 4000), (4, 5000)])"
  by (simp add: freqBand_values map_get_def LOWER_POWER_CUTOFF_def LOWER_FREQ_CUTOFF_def)

text \<open>
  C2 at a frame of five admissible samples at 100, 1000, 2500, 4000 and 5000 Hz, all below
  the limit \<open>11025 / 2\<close>, each of power 200. \<^verbatim>\<open>freqBand\<close> rounds \<open>4 * f / 5512.5\<close> to the
  nearest integer, which takes the five values 0 to 4 below the limit (the first and
  the last band are half as wide as the others), not four: the selector returns five
  candidates, whatever the sorter and the iteration order of the map.
\<close>

theorem getBandedCandidates_five_bands:
  assumes srt: "sort_contract srt" and ord: "range_contract ord"
  shows "\<exists>cs. getBandedCandidates srt ord [100, 1000, 2500, 4000, 5000] [200, 200, 200, 200, 200] = Inr cs
          \<and> length cs = 5
          \<and> mset cs = {#\<lparr>Freq = 100, Pxx = 200\<rparr>, \<lparr>Freq = 1000, Pxx = 200\<rparr>,
                \<lparr>Freq = 2500, Pxx = 200\<rparr>, \<lparr>Freq = 4000, Pxx = 200\<rparr>, \<lparr>Freq = 5000, Pxx = 200\<rparr>#}
          \<and> (\<forall>c\<in>set cs. Freq c < 11025 / 2)"
proof -
  let ?hs = "[(0, 200), (1, 200), (2, 200), (3, 200), (4, 200)] :: float_map"
  let ?hp = "[(0, 100), (1, 1000), (2, 2500), (3, 4000), (4, 5000)] :: float_map"
  let ?mk = "\<lambda>(k, v). \<lparr>Freq = fuzzyFreq v, Pxx = map_get ?hs k\<rparr>"
  let ?cs = "srt (Reverse ByFreq_Less) (map ?mk (ord ?hp))"
  have r: "getBandedCandidates srt ord [100, 1000, 2500, 4000, 5000] [200, 200, 200, 200, 200] = Inr ?cs"
    by (simp only: getBandedCandidates_def bandLoop_five sum.case prod.case)
  have "mset ?cs = mset (map ?mk (ord ?hp))" by (rule sort_by_freq(1) [OF srt])
  also have "\<dots> = image_mset ?mk (mset (ord ?hp))" by simp
  also have "mset (ord ?hp) = mset ?hp" using ord by (simp add: range_contract_def)
  also have "image_mset ?mk (mset ?hp) = {#\<lparr>Freq = 100, Pxx = 200\<rparr>, \<lparr>Freq = 1000, Pxx = 200\<rparr>,
                \<lparr>Freq = 2500, Pxx = 200\<rparr>, \<lparr>Freq = 4000, Pxx = 200\<rparr>, \<lparr>Freq = 5000, Pxx = 200\<rparr>#}"
    by (simp add: map_get_def fuzzyFreq_tens)
  finally have m: "mset ?cs = {#\<lparr>Freq = 100, Pxx = 200\<rparr>, \<lparr>Freq = 1000, Pxx = 200\<rparr>,
                \<lparr>Freq = 2500, Pxx = 200\<rparr>, \<lparr>Freq = 4000, Pxx = 200\<rparr>, \<lparr>Freq = 5000, Pxx = 200\<rparr>#}" .
  then have "size (mset ?cs) = 5" by simp
  then have l: "length ?cs = 5" by simp
  have "set_mset (mset ?cs) = {\<lparr>Freq = 100, Pxx = 200\<rparr>, \<lparr>Freq = 1000, Pxx = 200\<rparr>,
                \<lparr>Freq = 2500, Pxx = 200\<rparr>, \<lparr>Freq = 4000, Pxx = 200\<rparr>, \<lparr>Freq = 5000, Pxx = 200\<rparr>}"
    unfolding m by auto
  then have b: "\<forall>c\<in>set ?cs. Freq c < 11025 / 2" by simp
  from r l m b show ?thesis by blast
qed

theorem getBandedCandidates_five_bands_witness:
  "sort_contract insertionSort \<and> range_contract id
   \<and> getBandedCandidates insertionSort id [100, 1000, 2500, 4000, 5000] [200, 200, 200, 200, 200]
       = Inr [\<lparr>Freq = 5000, Pxx = 200\<rparr>, \<lparr>Freq = 4000, Pxx = 200\<rparr>, \<lparr>Freq = 2500, Pxx = 200\<rparr>,
              \<lparr>Freq = 1000, Pxx = 200\<rparr>, \<lparr>Freq = 100, Pxx = 200\<rparr>]
   \<and> (\<exists>cs. getBandedCandidates insertionSort id [100, 1000, 2500, 4000, 5000] [200, 200, 200, 200, 200]
       = Inr cs \<and> length cs = 5)"
proof -
  have o: "range_contract id" by (simp add: range_contract_def)
  have v: "getBandedCandidates insertionSort id [100, 1000, 2500, 4000, 5000] [200, 200, 200, 200, 200]
       = Inr [\<lparr>Freq = 5000, Pxx = 200\<rparr>, \<lparr>Freq = 4000, Pxx = 200\<rparr>, \<lparr>Freq = 2500, Pxx = 200\<rparr>,
              \<lparr>Freq = 1000, Pxx = 200\<rparr>, \<lparr>Freq = 100, Pxx = 200\<rparr>]"
    unfolding getBandedCandidates_def bandLoop_five
    by (simp add: map_get_def fuzzyFreq_tens insertionSort_def Reverse_def ByFreq_Less_def)
  from getBandedCandidates_five_bands [OF insertionSort_contract o] insertionSort_contract o v
  show ?thesis by blast
qed

lemma range_contract_id: "range_contract id"
  by (simp add: range_contract_def)

lemma range_contract_rev: "range_contract rev"
  by (simp add: range_contract_def)

lemma banded_five_insertionSort:
  "getBandedCandidates insertionSort id [100, 1000, 2500, 4000, 5000] [200, 200, 200, 200, 200]
       = Inr [\<lparr>Freq = 5000, Pxx = 200\<rparr>, \<lparr>Freq = 4000, Pxx = 200\<rparr>, \<lparr>Freq = 2500, Pxx = 200\<rparr>,
              \<lparr>Freq = 1000, Pxx = 200\<rparr>, \<lparr>Freq = 100, Pxx = 200\<rparr>]"
  unfolding getBandedCandidates_def bandLoop_five
  by (simp add: map_get_def fuzzyFreq_tens insertionSort_def Reverse_def ByFreq_Less_def)

lemma banded_one_insertionSort:
  "getBandedCandidates insertionSort id [1000] [200] = Inr [\<lparr>Freq = 1000, Pxx = 200\<rparr>]"
  by (simp add: getBandedCandidates_def freqBand_values map_get_def fuzzyFreq_tens
      insertionSort_def LOWER_POWER_CUTOFF_def LOWER_FREQ_CUTOFF_def)

subsection \<open>The assembler\<close>

text \<open>
  C8. With an analyser selection other than \<open>SA_PWELCH\<close> and \<open>SA_BESPOKE\<close>, \<^verbatim>\<open>New\<close> panics
  (\<^verbatim>\<open>log.Panicf\<close>) whatever the frame, and returns nothing; so does its \<^verbatim>\<open>switch\<close> on the
  key generation method with a method other than the three it knows.
\<close>

theorem New_unrecognised_aborts:
  "(optSpectralAnalyser \<noteq> SA_PWELCH \<and> optSpectralAnalyser \<noteq> SA_BESPOKE \<longrightarrow>
      New pwelch overlap srt ord fmt sha sampleBlock sampleRate optSpectralAnalyser optVerbose
        = Inl (UnrecognisedAnalyser optSpectralAnalyser))
   \<and> (optMethod \<noteq> ''transcribe'' \<and> optMethod \<noteq> ''topfreqs'' \<and> optMethod \<noteq> ''freqbands'' \<longrightarrow>
      New_method srt ord fmt sha optMethod sampleBlock freqs pxx = Inl (UnknownMethod optMethod))"
  by (simp add: New_def New_method_def)

theorem New_unrecognised_aborts_witness:
  "(0::int) \<noteq> SA_PWELCH \<and> (0::int) \<noteq> SA_BESPOKE
   \<and> New (\<lambda>b r. ([500], [440])) (\<lambda>b r. ([500], [440])) insertionSort id (\<lambda>f. []) (\<lambda>s. [])
        (Some \<lparr>BufferData = (), BufferTimestamp = 3 / 2\<rparr>) 11025 0 False
       = Inl (UnrecognisedAnalyser 0)
   \<and> New_method insertionSort id (\<lambda>f. []) (\<lambda>s. []) ''powerkey''
        (Some \<lparr>BufferData = (), BufferTimestamp = 3 / 2\<rparr>) [440] [500]
       = Inl (UnknownMethod ''powerkey'')"
  using New_unrecognised_aborts [where optSpectralAnalyser = 0 and optMethod = "''powerkey''"
      and pwelch = "\<lambda>b r. ([500], [440])" and overlap = "\<lambda>b r. ([500], [440])"
      and srt = insertionSort and ord = id and fmt = "\<lambda>f. []" and sha = "\<lambda>s. []"
      and sampleBlock = "Some \<lparr>BufferData = (), BufferTimestamp = 3 / 2\<rparr>"
      and sampleRate = 11025 and optVerbose = False and freqs = "[440]" and pxx = "[500]"]
  by (simp add: SA_PWELCH_def SA_BESPOKE_def)

text \<open>
  C10. In the branch \<^verbatim>\<open>"freqbands"\<close> of \<^verbatim>\<open>New\<close> a fingerprint is returned only when
  \<^verbatim>\<open>getBandedCandidates\<close> has returned at least \<open>REQUIRED_CANDIDATES = 4\<close> candidates, and
  its candidates are those; with fewer, \<^verbatim>\<open>New\<close> returns \<^verbatim>\<open>nil\<close>, although the selector
  has returned its (shorter) list without a failure. With four or more and a buffer,
  the fingerprint is the hash key of the frequencies, the timestamp of the buffer and
  the candidates.
\<close>

theorem New_method_freqbands_needs_four:
  "(\<forall>fp. New_method srt ord fmt sha ''freqbands'' sampleBlock freqs pxx = Inr (Some fp) \<longrightarrow>
      (\<exists>cs. getBandedCandidates srt ord freqs pxx = Inr cs \<and> REQUIRED_CANDIDATES \<le> length cs
         \<and> Candidates fp = Some cs \<and> Key fp = hashKey fmt sha (map Freq cs)))
   \<and> (\<forall>cs. getBandedCandidates srt ord freqs pxx = Inr cs \<and> length cs < REQUIRED_CANDIDATES \<longrightarrow>
      New_method srt ord fmt sha ''freqbands'' sampleBlock freqs pxx = Inr None)
   \<and> (\<forall>cs b. getBandedCandidates srt ord freqs pxx = Inr cs \<and> REQUIRED_CANDIDATES \<le> length cs
         \<and> sampleBlock = Some b \<longrightarrow>
      New_method srt ord fmt sha ''freqbands'' sampleBlock freqs pxx
        = Inr (Some \<lparr>Key = hashKey fmt sha (map Freq cs), Timestamp = BufferTimestamp b,
                     Candidates = Some cs, Transcription = None\<rparr>))
   \<and> REQUIRED_CANDIDATES = 4"
  by (auto simp add: New_method_def hashed_def slice_len_def REQUIRED_CANDIDATES_def
      split: sum.splits option.splits if_splits)

theorem New_method_freqbands_needs_four_witness:
  "getBandedCandidates insertionSort id [1000] [200] = Inr [\<lparr>Freq = 1000, Pxx = 200\<rparr>]
   \<and> length [\<lparr>Freq = 1000, Pxx = 200\<rparr>] < REQUIRED_CANDIDATES
   \<and> New_method insertionSort id (\<lambda>f. ''f'') (\<lambda>s. [of_nat (length s)]) ''freqbands''
        (Some \<lparr>BufferData = (), BufferTimestamp = 3 / 2\<rparr>) [1000] [200] = Inr None
   \<and> New_method insertionSort id (\<lambda>f. ''f'') (\<lambda>s. [of_nat (length s)]) ''freqbands''
        (Some \<lparr>BufferData = (), BufferTimestamp = 3 / 2\<rparr>)
        [100, 1000, 2500, 4000, 5000] [200, 200, 200, 200, 200]
       = Inr (Some \<lparr>Key = [5], Timestamp = 3 / 2,
                    Candidates = Some [\<lparr>Freq = 5000, Pxx = 200\<rparr>, \<lparr>Freq = 4000, Pxx = 200\<rparr>,
                      \<lparr>Freq = 2500, Pxx = 200\<rparr>, \<lparr>Freq = 1000, Pxx = 200\<rparr>, \<lparr>Freq = 100, Pxx = 200\<rparr>],
                    Transcription = None\<rparr>)"
proof -
  let ?b = "\<lparr>BufferData = (), BufferTimestamp = 3 / 2\<rparr> :: unit pcm_Buffer"
  let ?cs = "[\<lparr>Freq = 5000, Pxx = 200\<rparr>, \<lparr>Freq = 4000, Pxx = 200\<rparr>,
              \<lparr>Freq = 2500, Pxx = 200\<rparr>, \<lparr>Freq = 1000, Pxx = 200\<rparr>, \<lparr>Freq = 100, Pxx = 200\<rparr>]"
  have short: "length [\<lparr>Freq = 1000, Pxx = 200\<rparr>] < REQUIRED_CANDIDATES"
    by (simp add: REQUIRED_CANDIDATES_def)
  have long: "REQUIRED_CANDIDATES \<le> length ?cs"
    by (simp add: REQUIRED_CANDIDATES_def)
  have n: "New_method insertionSort id (\<lambda>f. ''f'') (\<lambda>s. [of_nat (length s)]) ''freqbands''
        (Some ?b) [1000] [200] = Inr None"
    using banded_one_insertionSort short
    by (intro New_method_freqbands_needs_four
        [THEN conjunct2, THEN conjunct1, rule_format, of _ _ _ _ "[\<lparr>Freq = 1000, Pxx = 200\<rparr>]"]) blast
  have f: "New_method insertionSort id (\<lambda>f. ''f'') (\<lambda>s. [of_nat (length s)]) ''freqbands''
        (Some ?b) [100, 1000, 2500, 4000, 5000] [200, 200, 200, 200, 200]
       = Inr (Some \<lparr>Key = hashKey (\<lambda>f. ''f'') (\<lambda>s. [of_nat (length s)]) (map Freq ?cs),
                    Timestamp = BufferTimestamp ?b, Candidates = Some ?cs, Transcription = None\<rparr>)"
    using banded_five_insertionSort long
    by (intro New_method_freqbands_needs_four
        [THEN conjunct2, THEN conjunct2, THEN conjunct1, rule_format]) blast
  have k: "hashKey (\<lambda>f. ''f'') (\<lambda>s. [of_nat (length s)]) (map Freq ?cs) = [5 :: byte]"
    by (simp add: hashKey_def)
  from n f show ?thesis
    unfolding k using banded_one_insertionSort short by simp
qed

text \<open>
  From one run to the next only the order in which \<^verbatim>\<open>range\<close> visits a map can change.
  Only the branch \<^verbatim>\<open>"freqbands"\<close> ranges over a map, and \<^verbatim>\<open>New\<close> never takes it. In
  that branch the key, the timestamp and the candidates as a multiset do not depend on
  the order; the order of two candidates of equal quantised frequency does.
\<close>

lemma descending_unique:
  fixes xs ys :: "real list"
  assumes m: "mset xs = mset ys"
    and sx: "sorted_wrt (\<lambda>a b. b \<le> a) xs" and sy: "sorted_wrt (\<lambda>a b. b \<le> a) ys"
  shows "xs = ys"
proof -
  have "sorted (rev xs)" "sorted (rev ys)"
    using sx sy by (simp_all add: sorted_wrt_rev)
  moreover have "mset (rev xs) = mset (rev ys)" using m by simp
  ultimately have "rev xs = rev ys"
    by (metis properties_for_sort)
  then show ?thesis by simp
qed

lemma banded_order:
  assumes srt: "sort_contract srt" and o1: "range_contract ord1" and o2: "range_contract ord2"
    and r1: "getBandedCandidates srt ord1 freqs pxx = Inr cs1"
  shows "\<exists>cs2. getBandedCandidates srt ord2 freqs pxx = Inr cs2
           \<and> mset cs2 = mset cs1 \<and> map Freq cs2 = map Freq cs1"
proof -
  from r1 obtain hs hp where loop: "bandLoop freqs pxx ([], []) = Inr (hs, hp)"
    and cs1: "cs1 = srt (Reverse ByFreq_Less)
                (map (\<lambda>(k, v). \<lparr>Freq = fuzzyFreq v, Pxx = map_get hs k\<rparr>) (ord1 hp))"
    by (auto simp add: getBandedCandidates_def split: sum.splits)
  let ?cs2 = "srt (Reverse ByFreq_Less)
                (map (\<lambda>(k, v). \<lparr>Freq = fuzzyFreq v, Pxx = map_get hs k\<rparr>) (ord2 hp))"
  have r2: "getBandedCandidates srt ord2 freqs pxx = Inr ?cs2"
    by (simp add: getBandedCandidates_def loop)
  have "mset (ord1 hp) = mset (ord2 hp)"
    using o1 o2 by (simp add: range_contract_def)
  then have m: "mset ?cs2 = mset cs1"
    unfolding cs1 by (simp add: sort_by_freq(1) [OF srt])
  have "sorted_wrt (\<lambda>a b. Freq b \<le> Freq a) ?cs2" "sorted_wrt (\<lambda>a b. Freq b \<le> Freq a) cs1"
    unfolding cs1 by (rule sort_by_freq(2) [OF srt])+
  then have "sorted_wrt (\<lambda>a b. b \<le> a) (map Freq ?cs2)" "sorted_wrt (\<lambda>a b. b \<le> a) (map Freq cs1)"
    by (simp_all add: sorted_wrt_map)
  moreover have "mset (map Freq ?cs2) = mset (map Freq cs1)"
    using m by (metis mset_map)
  ultimately have "map Freq ?cs2 = map Freq cs1" by (intro descending_unique)
  with r2 m show ?thesis by blast
qed

lemma New_method_order:
  assumes srt: "sort_contract srt" and o1: "range_contract ord1" and o2: "range_contract ord2"
  shows "observable (New_method srt ord1 fmt sha optMethod sampleBlock freqs pxx)
       = observable (New_method srt ord2 fmt sha optMethod sampleBlock freqs pxx)"
proof (cases "optMethod = ''freqbands''")
  case False
  then show ?thesis by (simp add: New_method_def)
next
  case True
  show ?thesis
  proof (cases "getBandedCandidates srt ord1 freqs pxx")
    case (Inl e)
    then have "getBandedCandidates srt ord2 freqs pxx = Inl e"
      by (auto simp add: getBandedCandidates_def split: sum.splits)
    with Inl True show ?thesis by (simp add: New_method_def)
  next
    case (Inr cs1)
    from banded_order [OF srt o1 o2 Inr] obtain cs2
      where r2: "getBandedCandidates srt ord2 freqs pxx = Inr cs2"
        and m: "mset cs2 = mset cs1" and f: "map Freq cs2 = map Freq cs1"
      by blast
    from m have "length cs2 = length cs1" by (rule mset_eq_length)
    with Inr r2 m f True show ?thesis
      by (simp add: New_method_def hashed_def slice_len_def observable_def split: option.splits)
  qed
qed

lemma freqBand_boundary: "freqBand 688 = 0" "freqBand 690 = 1"
  by (simp_all add: freqBand_def go_int_def LOWER_FREQ_CUTOFF_def floor_eq_iff)

lemma fuzzyFreq_boundary: "fuzzyFreq 688 = 690" "fuzzyFreq 690 = 690"
  by (simp_all add: fuzzyFreq_def go_int_def floor_eq_iff)

lemma banded_candidates_depend_on_order:
  "getBandedCandidates insertionSort id [688, 690, 2500, 4000] [200, 300, 200, 200]
     = Inr [\<lparr>Freq = 4000, Pxx = 200\<rparr>, \<lparr>Freq = 2500, Pxx = 200\<rparr>,
            \<lparr>Freq = 690, Pxx = 300\<rparr>, \<lparr>Freq = 690, Pxx = 200\<rparr>]
   \<and> getBandedCandidates insertionSort rev [688, 690, 2500, 4000] [200, 300, 200, 200]
     = Inr [\<lparr>Freq = 4000, Pxx = 200\<rparr>, \<lparr>Freq = 2500, Pxx = 200\<rparr>,
            \<lparr>Freq = 690, Pxx = 200\<rparr>, \<lparr>Freq = 690, Pxx = 300\<rparr>]"
proof -
  have "bandLoop [688, 690, 2500, 4000] [200, 300, 200, 200] ([], [])
     = Inr ([(0, 200), (1, 300), (2, 200), (3, 200)], [(0, 688), (1, 690), (2, 2500), (3, 4000)])"
    by (simp add: freqBand_values freqBand_boundary map_get_def
        LOWER_POWER_CUTOFF_def LOWER_FREQ_CUTOFF_def)
  then show ?thesis
    unfolding getBandedCandidates_def
    by (simp add: map_get_def fuzzyFreq_tens fuzzyFreq_boundary insertionSort_def
        Reverse_def ByFreq_Less_def)
qed


end
